theory Spec2Isabelle
  imports Main "HOL-Library.Word" "HOL-Library.AList"
begin

unbundle bit_operations_syntax

section \<open>The wire protocol (src/protocol/P2PProtocol.js)\<close>

text \<open>
  JavaScript numbers that hold integers are modelled as \<^typ>\<open>int\<close>; a \<open>Uint8Array\<close> is a
  list of 8-bit words. Where the source converts a number to a fixed width (the setters
  of \<open>DataView\<close>, the bitwise operators), the conversion is written out.
\<close>

type_synonym byte = "8 word"
type_synonym bytes = "byte list"

datatype js_error = Error string | RangeError

subsection \<open>MessageType\<close>

definition PING :: int where "PING = 1"
definition PONG :: int where "PONG = 2"
definition PEER_DISCOVERY :: int where "PEER_DISCOVERY = 3"
definition PEER_ANNOUNCEMENT :: int where "PEER_ANNOUNCEMENT = 4"
definition CHAT_MESSAGE :: int where "CHAT_MESSAGE = 5"
definition PRIVATE_MESSAGE :: int where "PRIVATE_MESSAGE = 6"
definition ROUTING_UPDATE :: int where "ROUTING_UPDATE = 7"
definition ACK :: int where "ACK = 8"

subsection \<open>class Message\<close>

record message =
  msgType :: int
  ttl :: int
  msgId :: int
  payload :: bytes

text \<open>The constructor: its two \<open>throw new Error(...)\<close> are the \<open>Inl\<close> results.\<close>

definition Message :: "int \<Rightarrow> int \<Rightarrow> int \<Rightarrow> bytes \<Rightarrow> js_error + message" where
  "Message t l i p =
     (if l < 0 \<or> l > 7 then Inl (Error ''TTL must be between 0 and 7'')
      else if length p > 65535 then Inl (Error ''Payload too large (max 65535 bytes)'')
      else Inr \<lparr>msgType = t, ttl = l, msgId = i, payload = p\<rparr>)"

subsection \<open>DataView and typed arrays\<close>

text \<open>
  The setters store the value modulo \<open>2 ^ 8\<close>, \<open>2 ^ 16\<close>, \<open>2 ^ 32\<close>, most significant byte
  first (every call of the source passes \<open>false\<close> for little-endian). A setter raises a
  \<open>RangeError\<close> when the offset is outside the view; the source only calls them on the
  8-byte header with the constant offsets 0, 1, 2 and 6, so that case is not a branch of
  \<open>serialize\<close>. The getters keep the range check.
\<close>

definition HEADER_SIZE :: nat where "HEADER_SIZE = 8"

definition MAX_PAYLOAD_SIZE :: nat where "MAX_PAYLOAD_SIZE = 65535"

definition setUint8 :: "bytes \<Rightarrow> nat \<Rightarrow> int \<Rightarrow> bytes" where
  "setUint8 view off v = view[off := word_of_int v]"

definition setUint16 :: "bytes \<Rightarrow> nat \<Rightarrow> int \<Rightarrow> bytes" where
  "setUint16 view off v = view[off := word_of_int (v div 2 ^ 8), off + 1 := word_of_int v]"

definition setUint32 :: "bytes \<Rightarrow> nat \<Rightarrow> int \<Rightarrow> bytes" where
  "setUint32 view off v =
     view[off := word_of_int (v div 2 ^ 24), off + 1 := word_of_int (v div 2 ^ 16),
          off + 2 := word_of_int (v div 2 ^ 8), off + 3 := word_of_int v]"

definition getUint8 :: "bytes \<Rightarrow> nat \<Rightarrow> js_error + int" where
  "getUint8 view off =
     (if off + 1 \<le> length view then Inr (uint (view ! off)) else Inl RangeError)"

definition getUint16 :: "bytes \<Rightarrow> nat \<Rightarrow> js_error + int" where
  "getUint16 view off =
     (if off + 2 \<le> length view
      then Inr (uint (view ! off) * 2 ^ 8 + uint (view ! (off + 1)))
      else Inl RangeError)"

definition getUint32 :: "bytes \<Rightarrow> nat \<Rightarrow> js_error + int" where
  "getUint32 view off =
     (if off + 4 \<le> length view
      then Inr (uint (view ! off) * 2 ^ 24 + uint (view ! (off + 1)) * 2 ^ 16
                + uint (view ! (off + 2)) * 2 ^ 8 + uint (view ! (off + 3)))
      else Inl RangeError)"

text \<open>\<open>dst.set(src, off)\<close> and \<open>xs.slice(start, stop)\<close> for offsets inside the array.\<close>

definition Uint8Array_set :: "bytes \<Rightarrow> bytes \<Rightarrow> nat \<Rightarrow> bytes" where
  "Uint8Array_set dst src off = take off dst @ src @ drop (off + length src) dst"

definition slice :: "'a list \<Rightarrow> nat \<Rightarrow> nat \<Rightarrow> 'a list" where
  "slice xs start stop = take (stop - start) (drop start xs)"

subsection \<open>P2PProtocol.serialize and P2PProtocol.deserialize\<close>

definition serialize :: "message \<Rightarrow> bytes" where
  "serialize message =
     (let pl = payload message;
          headerBuffer = replicate HEADER_SIZE 0;
          h1 = setUint8 headerBuffer 0 (msgType message);
          h2 = setUint8 h1 1 (ttl message);
          h3 = setUint32 h2 2 (msgId message);
          h4 = setUint16 h3 6 (int (length pl));
          result = replicate (HEADER_SIZE + length pl) 0
      in Uint8Array_set (Uint8Array_set result h4 0) pl HEADER_SIZE)"

text \<open>
  \<open>deserialize\<close> returns \<open>null\<close> (\<open>None\<close>) or a message; an exception that would leave it
  is \<open>Inl\<close>. The error of the constructor is caught by the \<open>try\<close> of the source. The
  argument is a \<open>Uint8Array\<close> that starts at offset 0 of its buffer, as every caller in
  the repository passes.
\<close>

definition deserialize :: "bytes \<Rightarrow> js_error + message option" where
  "deserialize data =
     (if length data < HEADER_SIZE then Inr None
      else case getUint8 data 0 of Inl e \<Rightarrow> Inl e | Inr t \<Rightarrow>
           (case getUint8 data 1 of Inl e \<Rightarrow> Inl e | Inr l \<Rightarrow>
           (case getUint32 data 2 of Inl e \<Rightarrow> Inl e | Inr i \<Rightarrow>
           (case getUint16 data 6 of Inl e \<Rightarrow> Inl e | Inr payloadLength \<Rightarrow>
              if length data < HEADER_SIZE + nat payloadLength then Inr None
              else (case Message t l i
                           (slice data HEADER_SIZE (HEADER_SIZE + nat payloadLength)) of
                      Inl e \<Rightarrow> Inr None
                    | Inr m \<Rightarrow> Inr (Some m))))))"

subsection \<open>P2PProtocol.generateMessageId\<close>

text \<open>
  \<open>Date.now()\<close> and \<open>Math.floor(Math.random() * 0xFFFF)\<close> are parameters; the content is
  the list of its character codes. The operators \<open>&\<close>, \<open><<\<close>, \<open>|\<close> and \<open>^\<close> of JavaScript
  work on 32-bit integers and return a signed one, which \<^const>\<open>sint\<close> reads.
\<close>

definition generateMessageId :: "int \<Rightarrow> int \<Rightarrow> int list \<Rightarrow> int" where
  "generateMessageId now random content =
     (let timestamp = (word_of_int now :: 32 word) AND 0xFFFF;
          contentHash =
            foldl (\<lambda>h c. (push_bit 5 h - h + word_of_int c) AND 0xFFFF) (0 :: 32 word) content
      in sint (push_bit 16 timestamp OR (word_of_int random XOR contentHash)))"

subsection \<open>P2PProtocol.isDuplicate\<close>

text \<open>
  \<open>messageCache\<close> is a \<open>Set\<close>: its elements in insertion order. \<open>Set_add\<close> leaves a set
  that has the element as it is. \<open>entries.length / 2\<close> is a fraction for an odd length
  and \<open>slice\<close> truncates it, hence \<open>div\<close>.
\<close>

definition Set_add :: "int list \<Rightarrow> int \<Rightarrow> int list" where
  "Set_add s x = (if x \<in> set s then s else s @ [x])"

definition isDuplicate :: "int \<Rightarrow> int list \<Rightarrow> bool \<times> int list" where
  "isDuplicate i messageCache =
     (if i \<in> set messageCache then (True, messageCache)
      else let added = Set_add messageCache i in
           if length added > 10000
           then (let entries = added
                 in (False, foldl Set_add [] (drop (length entries div 2) entries)))
           else (False, added))"

text \<open>A sequence of calls, one after the other on the same cache: the results and the
  cache they leave.\<close>

fun isDuplicate_seq :: "int list \<Rightarrow> int list \<Rightarrow> bool list \<times> int list" where
  "isDuplicate_seq [] c = ([], c)"
| "isDuplicate_seq (x # xs) c =
     (case isDuplicate x c of (r, c') \<Rightarrow>
        (case isDuplicate_seq xs c' of (rs, c'') \<Rightarrow> (r # rs, c'')))"

section \<open>The network manager (src/network/P2PNetworkManager.js)\<close>

subsection \<open>class PeerInfo\<close>

record PeerInfo =
  address :: string
  port :: nat
  nickname :: "string option"
  lastSeen :: int
  hopCount :: nat

definition new_PeerInfo :: "int \<Rightarrow> string \<Rightarrow> nat \<Rightarrow> PeerInfo" where
  "new_PeerInfo now a p =
     \<lparr>address = a, port = p, nickname = None, lastSeen = now, hopCount = 1\<rparr>"

text \<open>The template string \<open>`${address}:${port}`\<close>: the port in decimal.\<close>

definition digit :: "nat \<Rightarrow> char" where
  "digit d = ''0123456789'' ! d"

fun string_of_nat :: "nat \<Rightarrow> string" where
  "string_of_nat n =
     (if n < 10 then [digit n] else string_of_nat (n div 10) @ [digit (n mod 10)])"

declare string_of_nat.simps [simp del]

definition peerKey :: "string \<Rightarrow> nat \<Rightarrow> string" where
  "peerKey a p = a @ '':'' @ string_of_nat p"

subsection \<open>What the platform supplies\<close>

text \<open>
  The clock, the random number and the text and JSON codecs are not code of the
  repository; every entry point takes them in an \<open>env\<close>. \<open>encodeAnnouncement n t\<close> is
  the UTF-8 encoding of \<open>JSON.stringify({nickname: n, timestamp: t})\<close>, \<open>decodeText\<close> is
  \<open>new TextDecoder().decode\<close>, and \<open>parseNickname s\<close> is the \<open>nickname\<close> field of
  \<open>JSON.parse(s)\<close> when the text parses to an object whose field is truthy.
\<close>

record env =
  Date_now :: int
  Math_random :: int
  encodeAnnouncement :: "string \<Rightarrow> int \<Rightarrow> bytes"
  decodeText :: "bytes \<Rightarrow> string"
  parseNickname :: "string \<Rightarrow> string option"

subsection \<open>class P2PNetworkManager\<close>

text \<open>
  \<open>peers\<close> and \<open>connections\<close> are \<open>Map\<close>s: association lists in insertion order, where
  \<^const>\<open>AList.update\<close> is \<open>set\<close> (in place for a key that is there, at the end otherwise)
  and \<^const>\<open>AList.delete\<close> is \<open>delete\<close>. A socket is a number. What the node does to the
  outside is recorded in three logs: \<open>written\<close> holds every \<open>socket.write(fullMessage)\<close>
  with the key the socket is registered under, \<open>destroyed\<close> every \<open>socket.destroy()\<close>,
  and \<open>emitted\<close> the calls of the callbacks \<open>onMessage\<close>, \<open>onPeerJoined\<close> and
  \<open>onPeerLeft\<close> (taken to be set, as the chat screen sets them).
\<close>

datatype event =
    onMessage string string bool
  | onPeerJoined PeerInfo
  | onPeerLeft PeerInfo

record manager =
  node_port :: nat
  node_nickname :: string
  protocol_messageCache :: "int list"
  peers :: "(string \<times> PeerInfo) list"
  connections :: "(string \<times> nat) list"
  server :: bool
  isRunning :: bool
  written :: "(string \<times> bytes) list"
  destroyed :: "nat list"
  emitted :: "event list"

definition P2PNetworkManager :: "nat \<Rightarrow> string option \<Rightarrow> manager" where
  "P2PNetworkManager p n =
     \<lparr>node_port = p,
      node_nickname =
        (case n of None \<Rightarrow> ''mobile_'' @ string_of_nat p
         | Some s \<Rightarrow> if s = [] then ''mobile_'' @ string_of_nat p else s),
      protocol_messageCache = [], peers = [], connections = [], server = False,
      isRunning = False, written = [], destroyed = [], emitted = []\<rparr>"

definition start :: "manager \<Rightarrow> manager" where
  "start st = st\<lparr>isRunning := True, server := True\<rparr>"

definition stop :: "manager \<Rightarrow> manager" where
  "stop st =
     st\<lparr>isRunning := False,
        destroyed := destroyed st @ map snd (connections st),
        connections := [],
        server := False\<rparr>"

text \<open>The outer frame: \<open>writeUInt32BE(serializedMessage.length, 0)\<close>, then the message.\<close>

definition writeUInt32BE :: "nat \<Rightarrow> bytes" where
  "writeUInt32BE n =
     [word_of_int (int n div 2 ^ 24), word_of_int (int n div 2 ^ 16),
      word_of_int (int n div 2 ^ 8), word_of_int (int n)]"

definition fullMessage :: "bytes \<Rightarrow> bytes" where
  "fullMessage serializedMessage =
     writeUInt32BE (length serializedMessage) @ serializedMessage"

definition forwardMessage :: "message \<Rightarrow> string option \<Rightarrow> manager \<Rightarrow> manager" where
  "forwardMessage m excludePeerKey st =
     st\<lparr>written := written st @
          map (\<lambda>(k, socket). (k, fullMessage (serialize m)))
            (filter (\<lambda>(k, socket). Some k \<noteq> excludePeerKey) (connections st))\<rparr>"

definition broadcastMessage :: "message \<Rightarrow> manager \<Rightarrow> manager" where
  "broadcastMessage m st = forwardMessage m None st"

definition sendToPeer :: "message \<Rightarrow> string \<Rightarrow> manager \<Rightarrow> manager" where
  "sendToPeer m k st =
     (case map_of (connections st) k of
        None \<Rightarrow> st
      | Some socket \<Rightarrow> st\<lparr>written := written st @ [(k, fullMessage (serialize m))]\<rparr>)"

definition createPeerAnnouncement :: "env \<Rightarrow> bytes \<Rightarrow> js_error + message" where
  "createPeerAnnouncement e pl =
     Message PEER_ANNOUNCEMENT 1 (generateMessageId (Date_now e) (Math_random e) []) pl"

definition sendPeerAnnouncement :: "env \<Rightarrow> string \<Rightarrow> manager \<Rightarrow> js_error + manager" where
  "sendPeerAnnouncement e k st =
     (case createPeerAnnouncement e (encodeAnnouncement e (node_nickname st) (Date_now e)) of
        Inl err \<Rightarrow> Inl err
      | Inr announcement \<Rightarrow>
          Inr (st\<lparr>written := written st @ [(k, fullMessage (serialize announcement))]\<rparr>))"

text \<open>
  \<open>connectToPeer\<close> returns a promise. The call itself resolves it at once for a key
  that has a connection, and dials nothing; otherwise it dials a socket and the promise
  stays pending until an event of that socket settles it. The call changes no table.
\<close>

datatype promise = Resolved | Rejected | Pending

definition connectToPeer :: "string \<Rightarrow> nat \<Rightarrow> manager \<Rightarrow> promise" where
  "connectToPeer a p st =
     (if peerKey a p \<in> fst ` set (connections st) then Resolved else Pending)"

text \<open>
  The \<open>connect\<close> callback of a dialled socket. It does not look at the table again: a
  second dial to the same key that connects later replaces the socket, announces and
  calls \<open>onPeerJoined\<close> once more. An announcement too large for a message makes the
  constructor throw out of the callback, after both tables are set and before
  \<open>onPeerJoined\<close> and \<open>resolve\<close>: the promise stays pending and the state is the one
  reached. The \<open>error\<close> callback registered by \<open>connectToPeer\<close> rejects and changes
  nothing.
\<close>

definition onConnect ::
  "env \<Rightarrow> nat \<Rightarrow> string \<Rightarrow> nat \<Rightarrow> manager \<Rightarrow> promise \<times> manager" where
  "onConnect e socket a p st =
     (let k = peerKey a p;
          peer = new_PeerInfo (Date_now e) a p;
          st1 = st\<lparr>connections := AList.update k socket (connections st),
                   peers := AList.update k peer (peers st)\<rparr>
      in case sendPeerAnnouncement e k st1 of
           Inl err \<Rightarrow> (Pending, st1)
         | Inr st2 \<Rightarrow> (Resolved, st2\<lparr>emitted := emitted st2 @ [onPeerJoined peer]\<rparr>))"

definition onConnectError :: "manager \<Rightarrow> promise \<times> manager" where
  "onConnectError st = (Rejected, st)"

definition handleIncomingConnection ::
  "env \<Rightarrow> nat \<Rightarrow> string \<Rightarrow> nat \<Rightarrow> manager \<Rightarrow> manager" where
  "handleIncomingConnection e socket a p st =
     (let k = peerKey a p;
          peer = new_PeerInfo (Date_now e) a p
      in st\<lparr>connections := AList.update k socket (connections st),
            peers := AList.update k peer (peers st),
            emitted := emitted st @ [onPeerJoined peer]\<rparr>)"

definition handlePeerDisconnect :: "string \<Rightarrow> manager \<Rightarrow> manager" where
  "handlePeerDisconnect k st =
     (let peer = map_of (peers st) k
      in st\<lparr>connections := AList.delete k (connections st),
            peers := AList.delete k (peers st),
            emitted := emitted st @ (case peer of None \<Rightarrow> [] | Some p \<Rightarrow> [onPeerLeft p])\<rparr>)"

subsection \<open>The handlers and the router\<close>

definition handlePing :: "env \<Rightarrow> message \<Rightarrow> string \<Rightarrow> manager \<Rightarrow> manager" where
  "handlePing e m fromPeerKey st =
     (case Message PONG 1 (generateMessageId (Date_now e) (Math_random e) []) [] of
        Inl err \<Rightarrow> st
      | Inr pong \<Rightarrow> sendToPeer pong fromPeerKey st)"

definition handlePong :: "env \<Rightarrow> message \<Rightarrow> string \<Rightarrow> manager \<Rightarrow> manager" where
  "handlePong e m fromPeerKey st =
     (case map_of (peers st) fromPeerKey of
        None \<Rightarrow> st
      | Some peer \<Rightarrow>
          st\<lparr>peers := AList.update fromPeerKey (peer\<lparr>lastSeen := Date_now e\<rparr>) (peers st)\<rparr>)"

text \<open>\<open>handlePeerDiscovery\<close> decodes the payload and prints it.\<close>

definition handlePeerDiscovery :: "env \<Rightarrow> message \<Rightarrow> string \<Rightarrow> manager \<Rightarrow> manager" where
  "handlePeerDiscovery e m fromPeerKey st = st"

definition handlePeerAnnouncement :: "env \<Rightarrow> message \<Rightarrow> string \<Rightarrow> manager \<Rightarrow> manager" where
  "handlePeerAnnouncement e m fromPeerKey st =
     (case (map_of (peers st) fromPeerKey, parseNickname e (decodeText e (payload m))) of
        (Some peer, Some n) \<Rightarrow>
          st\<lparr>peers := AList.update fromPeerKey
                 (peer\<lparr>nickname := Some n, lastSeen := Date_now e\<rparr>) (peers st)\<rparr>
      | _ \<Rightarrow> st)"

definition handleChatMessage :: "env \<Rightarrow> message \<Rightarrow> string \<Rightarrow> manager \<Rightarrow> manager" where
  "handleChatMessage e m fromPeerKey st =
     (let text = decodeText e (payload m);
          sender =
            (case map_of (peers st) fromPeerKey of
               None \<Rightarrow> fromPeerKey
             | Some peer \<Rightarrow>
                 (case nickname peer of
                    None \<Rightarrow> fromPeerKey
                  | Some n \<Rightarrow> if n = [] then fromPeerKey else n))
      in st\<lparr>emitted := emitted st @ [onMessage sender text False]\<rparr>)"

text \<open>\<open>messageHandlers[message.msgType]\<close>: five types have a handler, the others none.\<close>

definition messageHandlers ::
  "int \<Rightarrow> (env \<Rightarrow> message \<Rightarrow> string \<Rightarrow> manager \<Rightarrow> manager) option" where
  "messageHandlers t =
     (if t = PING then Some handlePing
      else if t = PONG then Some handlePong
      else if t = PEER_DISCOVERY then Some handlePeerDiscovery
      else if t = PEER_ANNOUNCEMENT then Some handlePeerAnnouncement
      else if t = CHAT_MESSAGE then Some handleChatMessage
      else None)"

definition handleMessage :: "env \<Rightarrow> message \<Rightarrow> string \<Rightarrow> manager \<Rightarrow> manager" where
  "handleMessage e m fromPeerKey st =
     (let st1 = (case messageHandlers (msgType m) of
                   None \<Rightarrow> st
                 | Some handler \<Rightarrow> handler e m fromPeerKey st)
      in if ttl m > 0
         then forwardMessage (m\<lparr>ttl := ttl m - 1\<rparr>) (Some fromPeerKey) st1
         else st1)"

text \<open>
  One frame taken off a socket's buffer by the \<open>data\<close> callback: decoded, checked
  against the cache, handled. An exception is caught by the callback's \<open>try\<close>.
\<close>

definition onMessageData :: "env \<Rightarrow> bytes \<Rightarrow> string \<Rightarrow> manager \<Rightarrow> manager" where
  "onMessageData e messageData k st =
     (case deserialize messageData of
        Inl err \<Rightarrow> st
      | Inr None \<Rightarrow> st
      | Inr (Some m) \<Rightarrow>
          (case isDuplicate (msgId m) (protocol_messageCache st) of
             (dup, cache) \<Rightarrow>
               if dup then st\<lparr>protocol_messageCache := cache\<rparr>
               else handleMessage e m k (st\<lparr>protocol_messageCache := cache\<rparr>)))"

text \<open>The body of the cleanup timer.\<close>

definition cleanup :: "env \<Rightarrow> manager \<Rightarrow> manager" where
  "cleanup e st =
     (if \<not> isRunning st then st
      else let staleThreshold = 5 * 60 * 1000;
               stalePeers =
                 map fst (filter (\<lambda>(k, peer). Date_now e - lastSeen peer > staleThreshold)
                            (peers st))
           in foldl (\<lambda>s k. handlePeerDisconnect k s) st stalePeers)"

subsection \<open>The events a node reacts to\<close>

datatype action =
    Start
  | Stop
  | IncomingConnection env nat string nat
  | ConnectEvent env nat string nat
  | ConnectError
  | SocketClosed string
  | MessageData env bytes string
  | CleanupTimer env

fun exec :: "manager \<Rightarrow> action \<Rightarrow> manager" where
  "exec st Start = start st"
| "exec st Stop = stop st"
| "exec st (IncomingConnection e socket a p) = handleIncomingConnection e socket a p st"
| "exec st (ConnectEvent e socket a p) = snd (onConnect e socket a p st)"
| "exec st ConnectError = snd (onConnectError st)"
| "exec st (SocketClosed k) = handlePeerDisconnect k st"
| "exec st (MessageData e messageData k) = onMessageData e messageData k st"
| "exec st (CleanupTimer e) = cleanup e st"

definition new_writes :: "manager \<Rightarrow> manager \<Rightarrow> (string \<times> bytes) list" where
  "new_writes st st' = drop (length (written st)) (written st')"

subsection \<open>Concrete caches\<close>

text \<open>
  Ids used below as concrete inputs: a cache of the 9999 ids 1 to 9999 and the 5001 ids
  10000 to 15000 checked after it, and the 10001 ids 0 to 10000.
\<close>

definition cache_9999 :: "int list" where
  "cache_9999 = map (\<lambda>n. int n + 1) [0..<9999]"

definition others_5001 :: "int list" where
  "others_5001 = 10000 # map (\<lambda>n. int n + 10001) [0..<4999] @ [15000]"

definition ids_10001 :: "int list" where
  "ids_10001 = map int [0..<10001]"

subsection \<open>A concrete node\<close>

text \<open>
  A node that was started and has accepted two connections, and two frames it may
  receive: a PING with ttl 1 and id 7, and a chat message with ttl 0 and id 9.
\<close>

definition env0 :: env where
  "env0 = \<lparr>Date_now = 1700000000000, Math_random = 4660,
            encodeAnnouncement = (\<lambda>n t. []), decodeText = (\<lambda>b. []),
            parseNickname = (\<lambda>s. None)\<rparr>"

definition node2 :: manager where
  "node2 = foldl exec (P2PNetworkManager 8888 None)
     [Start, IncomingConnection env0 1 ''10.0.0.1'' 5000,
      IncomingConnection env0 2 ''10.0.0.2'' 6000]"

definition ping_data :: bytes where
  "ping_data = [1, 1, 0, 0, 0, 7, 0, 0]"

definition chat_data :: bytes where
  "chat_data = [5, 0, 0, 0, 0, 9, 0, 1, 104]"

section \<open>Codec: arithmetic of the big-endian fields\<close>

lemma split_mod_256:
  "0 \<le> n \<Longrightarrow> (v::int) mod (256 * n) = 256 * ((v div 256) mod n) + v mod 256"
  by (simp add: zmod_zmult2_eq)

lemma be32_int:
  "(v::int) div 16777216 mod 256 * 16777216 + v div 65536 mod 256 * 65536
     + v div 256 mod 256 * 256 + v mod 256 = v mod 4294967296"
proof -
  have a: "v mod 4294967296 = 256 * ((v div 256) mod 16777216) + v mod 256"
    using split_mod_256 [of 16777216 v] by simp
  have d: "v div 256 div 256 = v div 65536"
    using zdiv_zmult2_eq [of 256 v 256] by simp
  have e: "v div 65536 div 256 = v div 16777216"
    using zdiv_zmult2_eq [of 256 v 65536] by simp
  have b: "(v div 256) mod 16777216 = 256 * ((v div 65536) mod 65536) + v div 256 mod 256"
    using split_mod_256 [of 65536 "v div 256"] by (simp add: d)
  have c: "(v div 65536) mod 65536 = 256 * ((v div 16777216) mod 256) + v div 65536 mod 256"
    using split_mod_256 [of 256 "v div 65536"] by (simp add: e)
  show ?thesis unfolding a b c by simp
qed

lemma be16_int: "(v::int) div 256 mod 256 * 256 + v mod 256 = v mod 65536"
  using split_mod_256 [of 256 v] by simp

lemma uint_byte: "uint (word_of_int x :: byte) = x mod 256"
  by (simp add: uint_word_of_int take_bit_eq_mod)

lemma pow2_values:
  "(2::int) ^ 24 = 16777216" "(2::int) ^ 16 = 65536" "(2::int) ^ 8 = 256"
  "(2::int) ^ 32 = 4294967296"
  by simp_all

lemma be32_word:
  "uint (word_of_int (v div 2 ^ 24) :: byte) * 2 ^ 24
     + uint (word_of_int (v div 2 ^ 16) :: byte) * 2 ^ 16
     + uint (word_of_int (v div 2 ^ 8) :: byte) * 2 ^ 8
     + uint (word_of_int v :: byte) = v mod 2 ^ 32"
  unfolding uint_byte pow2_values by (rule be32_int)

lemma be16_word:
  "uint (word_of_int (v div 2 ^ 8) :: byte) * 2 ^ 8 + uint (word_of_int v :: byte)
     = v mod 2 ^ 16"
  unfolding uint_byte pow2_values by (rule be16_int)

lemma serialize_bytes:
  "serialize m =
     [word_of_int (msgType m), word_of_int (ttl m),
      word_of_int (msgId m div 2 ^ 24), word_of_int (msgId m div 2 ^ 16),
      word_of_int (msgId m div 2 ^ 8), word_of_int (msgId m),
      word_of_int (int (length (payload m)) div 2 ^ 8), word_of_int (int (length (payload m)))]
     @ payload m"
  by (simp add: serialize_def HEADER_SIZE_def setUint8_def setUint16_def setUint32_def
      Uint8Array_set_def Let_def numeral_eq_Suc)

lemma serialize_nth:
  "serialize m ! 0 = word_of_int (msgType m)"
  "serialize m ! 1 = word_of_int (ttl m)"
  "serialize m ! 2 = word_of_int (msgId m div 2 ^ 24)"
  "serialize m ! 3 = word_of_int (msgId m div 2 ^ 16)"
  "serialize m ! 4 = word_of_int (msgId m div 2 ^ 8)"
  "serialize m ! 5 = word_of_int (msgId m)"
  "serialize m ! 6 = word_of_int (int (length (payload m)) div 2 ^ 8)"
  "serialize m ! 7 = word_of_int (int (length (payload m)))"
  unfolding serialize_bytes by simp_all

lemma serialize_length: "length (serialize m) = 8 + length (payload m)"
  unfolding serialize_bytes by simp

lemma serialize_drop: "drop 8 (serialize m) = payload m"
  unfolding serialize_bytes by simp

lemma small_mod: "0 \<le> (x::int) \<Longrightarrow> x < n \<Longrightarrow> x mod n = x"
  by simp

lemma serialize_fields:
  assumes "0 \<le> ttl m" and "ttl m \<le> 7" and "length (payload m) \<le> 65535"
  shows "uint (serialize m ! 0) = msgType m mod 2 ^ 8"
    and "uint (serialize m ! 1) = ttl m"
    and "uint (serialize m ! 2) * 2 ^ 24 + uint (serialize m ! 3) * 2 ^ 16
          + uint (serialize m ! 4) * 2 ^ 8 + uint (serialize m ! 5) = msgId m mod 2 ^ 32"
    and "uint (serialize m ! 6) * 2 ^ 8 + uint (serialize m ! 7) = int (length (payload m))"
proof -
  have l: "int (length (payload m)) mod 2 ^ 16 = int (length (payload m))"
    by (rule small_mod) (use assms(3) in simp_all)
  have t: "ttl m mod 256 = ttl m"
    by (rule small_mod) (use assms(1,2) in simp_all)
  show "uint (serialize m ! 0) = msgType m mod 2 ^ 8"
    unfolding serialize_nth uint_byte pow2_values ..
  show "uint (serialize m ! 1) = ttl m"
    unfolding serialize_nth uint_byte t ..
  show "uint (serialize m ! 2) * 2 ^ 24 + uint (serialize m ! 3) * 2 ^ 16
        + uint (serialize m ! 4) * 2 ^ 8 + uint (serialize m ! 5) = msgId m mod 2 ^ 32"
    unfolding serialize_nth by (rule be32_word)
  show "uint (serialize m ! 6) * 2 ^ 8 + uint (serialize m ! 7) = int (length (payload m))"
    unfolding serialize_nth be16_word l ..
qed

section \<open>Message construction\<close>

text \<open>
  Claim C8. Constructing a message fails exactly when the ttl is outside 0..7 or the
  payload is longer than 65535 bytes; the failure is the constructor's own \<open>throw\<close>, so
  the caller receives it. For every other input the construction succeeds and the
  message holds the type, ttl, id and payload that were supplied.
\<close>

theorem Message_validation:
  "((\<exists>err. Message t l i p = Inl err) \<longleftrightarrow> (l < 0 \<or> 7 < l \<or> 65535 < length p))
   \<and> (0 \<le> l \<and> l \<le> 7 \<and> length p \<le> 65535 \<longrightarrow>
        Message t l i p = Inr \<lparr>msgType = t, ttl = l, msgId = i, payload = p\<rparr>)"
  by (auto simp: Message_def)

theorem Message_validation_witness:
  "Message 5 2 305419896 [84, 101]
     = Inr \<lparr>msgType = 5, ttl = 2, msgId = 305419896, payload = [84, 101]\<rparr>
   \<and> (\<exists>err. Message 5 8 305419896 [84, 101] = Inl err)"
  using Message_validation [of 5 2 305419896 "[84, 101]"]
    Message_validation [of 5 8 305419896 "[84, 101]"]
  by simp

section \<open>The layout of a serialized message\<close>

text \<open>
  Claim C2. For a valid message (ttl in 0..7, payload of at most 65535 bytes),
  \<open>serialize\<close> gives 8 bytes and the payload: byte 0 is the type, byte 1 the ttl,
  bytes 2 to 5 the id as a 32-bit integer with the most significant byte first, bytes 6
  and 7 the payload length with the most significant byte first, and the bytes from
  offset 8 on are the payload, unchanged. Type and id are numbers of JavaScript: the
  bytes hold them modulo \<open>2 ^ 8\<close> and \<open>2 ^ 32\<close>, which is the number itself for a type
  code and for an unsigned 32-bit id.
\<close>

theorem serialize_layout:
  assumes "0 \<le> ttl m" and "ttl m \<le> 7" and "length (payload m) \<le> 65535"
  shows "length (serialize m) = 8 + length (payload m)
    \<and> uint (serialize m ! 0) = msgType m mod 2 ^ 8
    \<and> (0 \<le> msgType m \<and> msgType m < 2 ^ 8 \<longrightarrow> uint (serialize m ! 0) = msgType m)
    \<and> uint (serialize m ! 1) = ttl m
    \<and> uint (serialize m ! 2) * 2 ^ 24 + uint (serialize m ! 3) * 2 ^ 16
        + uint (serialize m ! 4) * 2 ^ 8 + uint (serialize m ! 5) = msgId m mod 2 ^ 32
    \<and> (0 \<le> msgId m \<and> msgId m < 2 ^ 32 \<longrightarrow>
          uint (serialize m ! 2) * 2 ^ 24 + uint (serialize m ! 3) * 2 ^ 16
          + uint (serialize m ! 4) * 2 ^ 8 + uint (serialize m ! 5) = msgId m)
    \<and> uint (serialize m ! 6) * 2 ^ 8 + uint (serialize m ! 7) = int (length (payload m))
    \<and> drop 8 (serialize m) = payload m"
proof -
  have t: "msgType m mod 2 ^ 8 = msgType m" if "0 \<le> msgType m" "msgType m < 2 ^ 8"
    using that by (rule small_mod)
  have i: "msgId m mod 2 ^ 32 = msgId m" if "0 \<le> msgId m" "msgId m < 2 ^ 32"
    using that by (rule small_mod)
  show ?thesis
    using serialize_length [of m] serialize_drop [of m] serialize_fields [OF assms] t i
    by presburger
qed

theorem serialize_layout_witness:
  "serialize \<lparr>msgType = 5, ttl = 2, msgId = 305419896, payload = [104, 105]\<rparr>
     = [5, 2, 18, 52, 86, 120, 0, 2, 104, 105]
   \<and> uint (serialize \<lparr>msgType = 5, ttl = 2, msgId = 305419896, payload = [104, 105]\<rparr> ! 2)
        * 2 ^ 24
      + uint (serialize \<lparr>msgType = 5, ttl = 2, msgId = 305419896, payload = [104, 105]\<rparr> ! 3)
        * 2 ^ 16
      + uint (serialize \<lparr>msgType = 5, ttl = 2, msgId = 305419896, payload = [104, 105]\<rparr> ! 4)
        * 2 ^ 8
      + uint (serialize \<lparr>msgType = 5, ttl = 2, msgId = 305419896, payload = [104, 105]\<rparr> ! 5)
      = 305419896"
  using serialize_layout [of "\<lparr>msgType = 5, ttl = 2, msgId = 305419896, payload = [104, 105]\<rparr>"]
  by (simp add: serialize_bytes)

section \<open>Decoding\<close>

lemma deserialize_short: "length b < 8 \<Longrightarrow> deserialize b = Inr None"
  by (simp add: deserialize_def HEADER_SIZE_def)

lemma deserialize_long:
  assumes "8 \<le> length b"
  shows "deserialize b =
     (if length b < 8 + nat (uint (b ! 6) * 2 ^ 8 + uint (b ! 7)) then Inr None
      else case Message (uint (b ! 0)) (uint (b ! 1))
                  (uint (b ! 2) * 2 ^ 24 + uint (b ! 3) * 2 ^ 16 + uint (b ! 4) * 2 ^ 8
                   + uint (b ! 5))
                  (take (nat (uint (b ! 6) * 2 ^ 8 + uint (b ! 7))) (drop 8 b)) of
             Inl e \<Rightarrow> Inr None
           | Inr m \<Rightarrow> Inr (Some m))"
proof -
  have g: "getUint8 b 0 = Inr (uint (b ! 0))" "getUint8 b 1 = Inr (uint (b ! 1))"
    "getUint32 b 2 = Inr (uint (b ! 2) * 2 ^ 24 + uint (b ! 3) * 2 ^ 16 + uint (b ! 4) * 2 ^ 8
                   + uint (b ! 5))"
    "getUint16 b 6 = Inr (uint (b ! 6) * 2 ^ 8 + uint (b ! 7))"
    using assms by (simp_all add: getUint8_def getUint16_def getUint32_def)
  have n: "\<not> length b < HEADER_SIZE"
    using assms by (simp add: HEADER_SIZE_def)
  show ?thesis
    unfolding deserialize_def g sum.case if_not_P [OF n] slice_def
    by (simp add: HEADER_SIZE_def)
qed

text \<open>
  Claim C9. \<open>deserialize\<close> never raises: for every byte sequence it returns, and the
  result is \<open>null\<close> for fewer than 8 bytes, \<open>null\<close> for fewer than 8 bytes plus the
  payload length read at offset 6, \<open>null\<close> when the constructor rejects the decoded
  fields, and the constructed message otherwise.
\<close>

theorem deserialize_never_raises:
  "(\<exists>r. deserialize b = Inr r)
   \<and> (length b < 8 \<longrightarrow> deserialize b = Inr None)
   \<and> (8 \<le> length b \<and> length b < 8 + nat (uint (b ! 6) * 2 ^ 8 + uint (b ! 7)) \<longrightarrow>
        deserialize b = Inr None)
   \<and> (8 \<le> length b \<and> 8 + nat (uint (b ! 6) * 2 ^ 8 + uint (b ! 7)) \<le> length b \<longrightarrow>
        (case Message (uint (b ! 0)) (uint (b ! 1))
                (uint (b ! 2) * 2 ^ 24 + uint (b ! 3) * 2 ^ 16 + uint (b ! 4) * 2 ^ 8
                 + uint (b ! 5))
                (take (nat (uint (b ! 6) * 2 ^ 8 + uint (b ! 7))) (drop 8 b)) of
           Inl err \<Rightarrow> deserialize b = Inr None
         | Inr m \<Rightarrow> deserialize b = Inr (Some m)))"
proof (cases "length b < 8")
  case True
  then show ?thesis by (simp add: deserialize_short)
next
  case False
  then have l: "8 \<le> length b" by simp
  show ?thesis
    unfolding deserialize_long [OF l] using l
    by (auto split: sum.splits)
qed

theorem deserialize_never_raises_witness:
  "deserialize [5, 2, 18, 52, 86, 120, 0, 2, 104] = Inr None
   \<and> deserialize [5, 2, 18, 52, 86] = Inr None
   \<and> deserialize [5, 9, 18, 52, 86, 120, 0, 1, 104] = Inr None
   \<and> deserialize [5, 2, 18, 52, 86, 120, 0, 2, 104, 105] =
        Inr (Some \<lparr>msgType = 5, ttl = 2, msgId = 305419896, payload = [104, 105]\<rparr>)"
  using deserialize_never_raises [of "[5, 2, 18, 52, 86, 120, 0, 2, 104]"]
    deserialize_never_raises [of "[5, 2, 18, 52, 86]"]
    deserialize_never_raises [of "[5, 9, 18, 52, 86, 120, 0, 1, 104]"]
    deserialize_never_raises [of "[5, 2, 18, 52, 86, 120, 0, 2, 104, 105]"]
  by (simp add: Message_def)

section \<open>Round trip\<close>

text \<open>
  What decoding an encoded valid message gives: the message with its type reduced
  modulo \<open>2 ^ 8\<close> and its id reduced modulo \<open>2 ^ 32\<close>. The ttl and the payload come back
  as they were.
\<close>

lemma deserialize_serialize:
  assumes "0 \<le> ttl m" and "ttl m \<le> 7" and "length (payload m) \<le> 65535"
  shows "deserialize (serialize m) =
     Inr (Some (m\<lparr>msgType := msgType m mod 2 ^ 8, msgId := msgId m mod 2 ^ 32\<rparr>))"
proof -
  have len: "8 \<le> length (serialize m)"
    "\<not> length (serialize m) < 8 + nat (int (length (payload m)))"
    by (simp_all add: serialize_length)
  have msg: "Message (msgType m mod 2 ^ 8) (ttl m) (msgId m mod 2 ^ 32) (payload m)
      = Inr (m\<lparr>msgType := msgType m mod 2 ^ 8, msgId := msgId m mod 2 ^ 32\<rparr>)"
    using assms unfolding Message_def by simp
  show ?thesis
    unfolding deserialize_long [OF len(1)] serialize_fields [OF assms] serialize_drop
      if_not_P [OF len(2)]
    by (simp only: nat_int take_all [OF order_refl] msg sum.case)
qed

lemma roundtrip_unsigned:
  assumes "0 \<le> ttl m" and "ttl m \<le> 7" and "length (payload m) \<le> 65535"
    and "0 \<le> msgType m" and "msgType m < 2 ^ 8" and "0 \<le> msgId m" and "msgId m < 2 ^ 32"
  shows "deserialize (serialize m) = Inr (Some m)"
proof -
  have "msgType m mod 2 ^ 8 = msgType m" "msgId m mod 2 ^ 32 = msgId m"
    using assms(4-7) by (simp_all only: small_mod)
  then show ?thesis
    using deserialize_serialize [OF assms(1-3)] by simp
qed

text \<open>
  Claim C1. The round trip is claimed for every valid message (ttl in 0..7, payload of at
  most 65535 bytes). \<open>generateMessageId\<close> ends in \<open>(timestamp << 16) | ...\<close>, a signed
  32-bit value, so a message the node creates while bit 15 of the clock is set has a
  negative id: at \<open>Date.now() = 1700000006144\<close> the id is \<open>-2147483648\<close>. The message is
  valid, \<open>serialize\<close> writes the id as \<open>80 00 00 00\<close>, and \<open>deserialize\<close> reads
  \<open>2147483648\<close>: the decoded message has another id than the encoded one.
\<close>

theorem roundtrip_signed_id:
  "Message CHAT_MESSAGE 3 (generateMessageId 1700000006144 0 []) []
     = Inr \<lparr>msgType = 5, ttl = 3, msgId = - 2147483648, payload = []\<rparr>
   \<and> serialize \<lparr>msgType = 5, ttl = 3, msgId = - 2147483648, payload = []\<rparr>
     = [5, 3, 128, 0, 0, 0, 0, 0]
   \<and> deserialize (serialize \<lparr>msgType = 5, ttl = 3, msgId = - 2147483648, payload = []\<rparr>)
     = Inr (Some \<lparr>msgType = 5, ttl = 3, msgId = 2147483648, payload = []\<rparr>)
   \<and> deserialize (serialize \<lparr>msgType = 5, ttl = 3, msgId = - 2147483648, payload = []\<rparr>)
     \<noteq> Inr (Some \<lparr>msgType = 5, ttl = 3, msgId = - 2147483648, payload = []\<rparr>)"
proof -
  have g: "generateMessageId 1700000006144 0 [] = - 2147483648"
    by (simp add: generateMessageId_def)
  have s: "serialize \<lparr>msgType = 5, ttl = 3, msgId = - 2147483648, payload = []\<rparr>
     = [5, 3, 128, 0, 0, 0, 0, 0]"
    by (simp add: serialize_bytes)
  have d: "deserialize [5, 3, 128, 0, 0, 0, 0, 0]
     = Inr (Some \<lparr>msgType = 5, ttl = 3, msgId = 2147483648, payload = []\<rparr>)"
    by (simp add: deserialize_long Message_def)
  show ?thesis
    unfolding g s d by (simp add: Message_def CHAT_MESSAGE_def)
qed

section \<open>The deduplication cache\<close>

lemma set_foldl_Set_add: "set (foldl Set_add acc xs) = set acc \<union> set xs"
  by (induction xs arbitrary: acc) (auto simp: Set_add_def)

lemma foldl_Set_add_distinct:
  "distinct (acc @ xs) \<Longrightarrow> foldl Set_add acc xs = acc @ xs"
  by (induction xs arbitrary: acc) (auto simp: Set_add_def)

lemma foldl_Set_add_Nil: "distinct xs \<Longrightarrow> foldl Set_add [] xs = xs"
  using foldl_Set_add_distinct [of "[]" xs] by simp

lemma last_kept: "0 < length c \<Longrightarrow> i \<in> set (drop (Suc (length c) div 2) (c @ [i]))"
  by simp

lemma isDuplicate_fst: "fst (isDuplicate i c) = (i \<in> set c)"
  by (simp add: isDuplicate_def Let_def)

lemma isDuplicate_hit: "i \<in> set c \<Longrightarrow> isDuplicate i c = (True, c)"
  by (simp add: isDuplicate_def)

lemma isDuplicate_miss:
  "i \<notin> set c \<Longrightarrow> length c < 10000 \<Longrightarrow> isDuplicate i c = (False, c @ [i])"
  by (simp add: isDuplicate_def Set_add_def)

lemma isDuplicate_evict:
  assumes "i \<notin> set c" and "10000 \<le> length c" and "distinct c"
  shows "isDuplicate i c = (False, drop (length (c @ [i]) div 2) (c @ [i]))"
proof -
  have a: "Set_add c i = c @ [i]"
    using assms(1) by (simp add: Set_add_def)
  have b: "10000 < length (c @ [i])"
    using assms(2) by simp
  have "distinct (c @ [i])"
    using assms(1,3) by simp
  then have "distinct (drop (length (c @ [i]) div 2) (c @ [i]))"
    by (rule distinct_drop)
  then have f: "foldl Set_add [] (drop (length (c @ [i]) div 2) (c @ [i]))
      = drop (length (c @ [i]) div 2) (c @ [i])"
    by (rule foldl_Set_add_Nil)
  show ?thesis
    by (simp only: isDuplicate_def a Let_def if_not_P [OF assms(1)] if_P [OF b] f)
qed

lemma isDuplicate_cache_subset: "set (snd (isDuplicate x c)) \<subseteq> insert x (set c)"
  by (auto simp: isDuplicate_def Set_add_def Let_def set_foldl_Set_add dest: in_set_dropD)

lemma isDuplicate_seq_Cons:
  "fst (isDuplicate_seq (x # xs) c)
     = fst (isDuplicate x c) # fst (isDuplicate_seq xs (snd (isDuplicate x c)))"
  "snd (isDuplicate_seq (x # xs) c) = snd (isDuplicate_seq xs (snd (isDuplicate x c)))"
  by (simp_all split: prod.splits)

lemma isDuplicate_seq_append:
  "isDuplicate_seq (xs @ ys) c =
     (fst (isDuplicate_seq xs c) @ fst (isDuplicate_seq ys (snd (isDuplicate_seq xs c))),
      snd (isDuplicate_seq ys (snd (isDuplicate_seq xs c))))"
  by (induction xs arbitrary: c) (auto split: prod.splits)

lemma isDuplicate_seq_snoc:
  "snd (isDuplicate_seq (xs @ [y]) c) = snd (isDuplicate y (snd (isDuplicate_seq xs c)))"
  by (simp add: isDuplicate_seq_append split: prod.splits)

lemma isDuplicate_seq_fresh:
  "distinct (c @ xs) \<Longrightarrow> length c + length xs \<le> 10000 \<Longrightarrow>
     isDuplicate_seq xs c = (replicate (length xs) False, c @ xs)"
proof (induction xs arbitrary: c)
  case Nil
  then show ?case by simp
next
  case (Cons x xs)
  have m: "isDuplicate x c = (False, c @ [x])"
    using Cons.prems by (intro isDuplicate_miss) auto
  have "isDuplicate_seq xs (c @ [x]) = (replicate (length xs) False, (c @ [x]) @ xs)"
    using Cons.prems by (intro Cons.IH) auto
  then show ?case by (simp add: m)
qed

lemma isDuplicate_seq_hits:
  "set xs \<subseteq> set c \<Longrightarrow> isDuplicate_seq xs c = (replicate (length xs) True, c)"
  by (induction xs) (simp_all add: isDuplicate_hit)

lemma isDuplicate_seq_misses:
  "distinct xs \<Longrightarrow> set xs \<inter> set c = {} \<Longrightarrow>
     fst (isDuplicate_seq xs c) = replicate (length xs) False"
proof (induction xs arbitrary: c)
  case Nil
  then show ?case by simp
next
  case (Cons x xs)
  have "set xs \<inter> set (snd (isDuplicate x c)) = {}"
    using Cons.prems isDuplicate_cache_subset [of x c] by auto
  then have "fst (isDuplicate_seq xs (snd (isDuplicate x c))) = replicate (length xs) False"
    using Cons.prems(1) by (intro Cons.IH) simp
  moreover have "fst (isDuplicate x c) = False"
    using Cons.prems(2) by (simp add: isDuplicate_fst)
  ultimately show ?case
    by (simp add: isDuplicate_seq_Cons del: isDuplicate_seq.simps)
qed

text \<open>
  Claim C10. After a call of \<open>isDuplicate\<close> with an id, whatever it returned, the id is
  in the cache: the eviction keeps the newer half of the entries, and the id just added
  is the newest.
\<close>

theorem isDuplicate_records: "i \<in> set (snd (isDuplicate i c))"
proof (cases "i \<in> set c")
  case True
  then show ?thesis by (simp add: isDuplicate_def)
next
  case False
  show ?thesis
  proof (cases "10000 < length (c @ [i])")
    case True
    then have "0 < length c" by (cases c) simp_all
    from last_kept [OF this] show ?thesis
      using False True by (simp add: isDuplicate_def Set_add_def set_foldl_Set_add)
  next
    case no: False
    then show ?thesis
      using False by (simp add: isDuplicate_def Set_add_def)
  qed
qed

text \<open>
  Claim C6. From an empty cache, 10001 distinct ids are checked one after the other
  (each check returns false). In the cache this leaves, a check of any of the 5000 ids
  inserted first returns false, they were evicted, and a check of any of the 5001 ids
  inserted last returns true. The same holds for a whole run of re-checks from that
  cache: the 5000 oldest ids one after the other all return false, and the 5001 newest
  all return true and leave the cache as it is.
\<close>

theorem eviction_after_10001:
  assumes "distinct ids" and "length ids = 10001"
  shows "fst (isDuplicate_seq ids []) = replicate (length ids) False
    \<and> (\<forall>x \<in> set (take 5000 ids). fst (isDuplicate x (snd (isDuplicate_seq ids []))) = False)
    \<and> (\<forall>x \<in> set (drop 5000 ids). fst (isDuplicate x (snd (isDuplicate_seq ids []))) = True)
    \<and> fst (isDuplicate_seq (take 5000 ids) (snd (isDuplicate_seq ids [])))
        = replicate 5000 False
    \<and> isDuplicate_seq (drop 5000 ids) (snd (isDuplicate_seq ids []))
        = (replicate 5001 True, snd (isDuplicate_seq ids []))"
proof -
  define xs where "xs = butlast ids"
  define y where "y = last ids"
  have ids: "ids = xs @ [y]"
    using assms(2) unfolding xs_def y_def by (cases ids rule: rev_cases) simp_all
  have lx: "length xs = 10000"
    using assms(2) unfolding ids by simp
  have dx: "distinct xs" "y \<notin> set xs"
    using assms(1) unfolding ids by simp_all
  have run: "isDuplicate_seq xs [] = (replicate (length xs) False, xs)"
    using isDuplicate_seq_fresh [of "[]" xs] dx(1) lx by simp
  have last: "isDuplicate y xs = (False, drop 5000 ids)"
    using isDuplicate_evict [OF dx(2) _ dx(1)] lx unfolding ids by simp
  have all: "isDuplicate_seq ids [] = (replicate (length ids) False, drop 5000 ids)"
    unfolding ids isDuplicate_seq_append run using last
    by (simp add: ids replicate_append_same)
  have disj: "set (take 5000 ids) \<inter> set (drop 5000 ids) = {}"
    using assms(1) set_take_disj_set_drop_if_distinct by blast
  have fresh: "fst (isDuplicate x (drop 5000 ids)) = False" if "x \<in> set (take 5000 ids)" for x
    using that disj by (auto simp: isDuplicate_fst)
  have old: "fst (isDuplicate_seq (take 5000 ids) (drop 5000 ids)) = replicate 5000 False"
    using isDuplicate_seq_misses [OF distinct_take [OF assms(1)] disj] assms(2) by simp
  have new: "isDuplicate_seq (drop 5000 ids) (drop 5000 ids)
      = (replicate 5001 True, drop 5000 ids)"
    using isDuplicate_seq_hits [of "drop 5000 ids" "drop 5000 ids"] assms(2) by simp
  show ?thesis
    unfolding all using fresh old new by (simp add: isDuplicate_hit)
qed

theorem eviction_after_10001_witness:
  "distinct ids_10001 \<and> length ids_10001 = 10001
   \<and> fst (isDuplicate 0 (snd (isDuplicate_seq ids_10001 []))) = False
   \<and> fst (isDuplicate 4999 (snd (isDuplicate_seq ids_10001 []))) = False
   \<and> fst (isDuplicate 5000 (snd (isDuplicate_seq ids_10001 []))) = True
   \<and> fst (isDuplicate 10000 (snd (isDuplicate_seq ids_10001 []))) = True"
proof -
  have h: "distinct ids_10001" "length ids_10001 = 10001"
    by (simp_all add: ids_10001_def distinct_map)
  have t: "take 5000 ids_10001 = map int [0..<5000]"
    by (simp add: ids_10001_def take_map)
  have d: "drop 5000 ids_10001 = map int [5000..<10001]"
    by (simp add: ids_10001_def drop_map del: upt_rec_numeral)
  have m: "0 \<in> set (take 5000 ids_10001)" "4999 \<in> set (take 5000 ids_10001)"
    "5000 \<in> set (drop 5000 ids_10001)" "10000 \<in> set (drop 5000 ids_10001)"
    unfolding t d by (auto simp del: upt_rec_numeral)
  show ?thesis
    using h m eviction_after_10001 [OF h] by blast
qed

lemma keep_step:
  assumes c: "c = pre @ i # post" and d: "distinct c" and l: "length c \<le> 10000"
    and s: "set post \<subseteq> S" and f: "finite S" and k: "card S \<le> 5000"
    and x: "x \<in> insert i S"
  shows "\<exists>pre' post'. snd (isDuplicate x c) = pre' @ i # post'
            \<and> distinct (snd (isDuplicate x c))
            \<and> length (snd (isDuplicate x c)) \<le> 10000 \<and> set post' \<subseteq> S"
proof (cases "x \<in> set c")
  case True
  then show ?thesis
    using c d l s by (auto simp: isDuplicate_hit)
next
  case False
  then have xi: "x \<noteq> i" and xS: "x \<in> S"
    using c x by auto
  have dp: "distinct (post @ [x])"
    using d False unfolding c by simp
  have sp: "set (post @ [x]) \<subseteq> S"
    using s xS by simp
  have "length (post @ [x]) = card (set (post @ [x]))"
    using dp by (simp only: distinct_card)
  also have "\<dots> \<le> card S"
    using sp f by (rule card_mono [rotated])
  finally have lp: "length (post @ [x]) \<le> 5000"
    using k by simp
  show ?thesis
  proof (cases "length c < 10000")
    case True
    have "snd (isDuplicate x c) = pre @ i # (post @ [x])"
      using isDuplicate_miss [OF False True] c by simp
    moreover have "distinct (pre @ i # (post @ [x]))"
      using d False unfolding c by simp
    moreover have "length (pre @ i # (post @ [x])) \<le> 10000"
      using True unfolding c by simp
    ultimately show ?thesis
      using sp by metis
  next
    case full: False
    then have lc: "length c = 10000" using l by simp
    then have lpre: "5000 \<le> length pre"
      using lp unfolding c by simp
    have "isDuplicate x c = (False, drop (length (c @ [x]) div 2) (c @ [x]))"
      using isDuplicate_evict [OF False _ d] lc by simp
    then have e: "snd (isDuplicate x c) = drop 5000 pre @ i # (post @ [x])"
      using lc lpre unfolding c by simp
    have "distinct (pre @ i # (post @ [x]))"
      using d False unfolding c by simp
    then have "distinct (drop 5000 pre @ i # (post @ [x]))"
      using distinct_drop [of "pre @ i # (post @ [x])" 5000] lpre by simp
    moreover have "length (drop 5000 pre @ i # (post @ [x])) \<le> 10000"
      using lc lpre unfolding c by simp
    ultimately show ?thesis
      unfolding e using sp by metis
  qed
qed

lemma keep_seq:
  assumes "c = pre @ i # post" and "distinct c" and "length c \<le> 10000"
    and "set post \<subseteq> S" and "finite S" and "card S \<le> 5000"
    and "set xs \<subseteq> insert i S"
  shows "list_all2 (\<lambda>x r. x = i \<longrightarrow> r) xs (fst (isDuplicate_seq xs c))"
  using assms
proof (induction xs arbitrary: c pre post)
  case Nil
  then show ?case by simp
next
  case (Cons x xs)
  have x: "x \<in> insert i S" and xs: "set xs \<subseteq> insert i S"
    using Cons.prems(7) by simp_all
  obtain pre' post' where n: "snd (isDuplicate x c) = pre' @ i # post'"
    "distinct (snd (isDuplicate x c))" "length (snd (isDuplicate x c)) \<le> 10000"
    "set post' \<subseteq> S"
    using keep_step [OF Cons.prems(1-6) x] by blast
  have r: "x = i \<longrightarrow> fst (isDuplicate x c)"
    using Cons.prems(1) by (simp add: isDuplicate_hit)
  have "list_all2 (\<lambda>x r. x = i \<longrightarrow> r) xs (fst (isDuplicate_seq xs (snd (isDuplicate x c))))"
    by (rule Cons.IH [OF n Cons.prems(5,6) xs])
  then show ?case
    using r by (auto simp add: isDuplicate_seq_Cons simp del: isDuplicate_seq.simps)
qed

text \<open>
  Claim C5, amended. From a cache of fewer than 10000 entries without the id, the first
  check of the id returns false and records it, and every later check of the id returns
  true as long as at most 5000 distinct other ids are checked in between. (An eviction
  may happen in between; it keeps the id.) The bound 10000 of the claim holds from an
  empty cache only.
\<close>

theorem isDuplicate_remembers:
  assumes "distinct c" and "length c < 10000" and "i \<notin> set c"
    and "card (set ys - {i}) \<le> 5000"
  shows "fst (isDuplicate i c) = False
    \<and> i \<in> set (snd (isDuplicate i c))
    \<and> list_all2 (\<lambda>y r. y = i \<longrightarrow> r) ys
         (fst (isDuplicate_seq ys (snd (isDuplicate i c))))"
proof -
  have first: "isDuplicate i c = (False, c @ [i])"
    using assms(3,2) by (rule isDuplicate_miss)
  have "list_all2 (\<lambda>y r. y = i \<longrightarrow> r) ys (fst (isDuplicate_seq ys (c @ [i])))"
  proof (rule keep_seq [where pre = c and post = "[]" and S = "set ys - {i}"])
    show "distinct (c @ [i])" using assms(1,3) by simp
    show "length (c @ [i]) \<le> 10000" using assms(2) by simp
  qed (use assms(4) in auto)
  then show ?thesis
    by (simp add: first)
qed

theorem isDuplicate_remembers_witness:
  "distinct [1, 2, 3 :: int] \<and> length [1, 2, 3 :: int] < 10000 \<and> (7 :: int) \<notin> set [1, 2, 3]
   \<and> card (set [8, 7, 9, 7 :: int] - {7}) \<le> 5000
   \<and> fst (isDuplicate 7 [1, 2, 3]) = False
   \<and> 7 \<in> set (snd (isDuplicate 7 [1, 2, 3]))
   \<and> list_all2 (\<lambda>y r. y = 7 \<longrightarrow> r) [8, 7, 9, 7 :: int]
        (fst (isDuplicate_seq [8, 7, 9, 7] (snd (isDuplicate 7 [1, 2, 3]))))
   \<and> fst (isDuplicate_seq [8, 7, 9, 7] (snd (isDuplicate 7 [1, 2, 3])))
        = [False, True, False, True]"
proof -
  have "card (set [8, 7, 9, 7 :: int] - {7}) \<le> length [8, 7, 9, 7 :: int]"
    by (rule order_trans [OF card_Diff1_le card_length])
  then have h: "distinct [1, 2, 3 :: int]" "length [1, 2, 3 :: int] < 10000"
    "(7 :: int) \<notin> set [1, 2, 3]" "card (set [8, 7, 9, 7 :: int] - {7}) \<le> 5000"
    by simp_all
  have e: "fst (isDuplicate_seq [8, 7, 9, 7] (snd (isDuplicate 7 [1, 2, 3])))
        = [False, True, False, True]"
    by (simp add: isDuplicate_def Set_add_def)
  show ?thesis
    using h e isDuplicate_remembers [OF h] by simp
qed

lemma evicted_after_5001:
  assumes d: "distinct (c @ i # x1 # mid @ [xl])" and lc: "length c = 9999"
    and lm: "length mid = 4999"
  shows "snd (isDuplicate_seq (x1 # mid @ [xl]) (snd (isDuplicate i c))) = x1 # mid @ [xl]"
proof -
  have s1: "isDuplicate i c = (False, c @ [i])"
    using d lc by (intro isDuplicate_miss) simp_all
  have "isDuplicate x1 (c @ [i]) = (False, drop (length ((c @ [i]) @ [x1]) div 2) ((c @ [i]) @ [x1]))"
    using d lc by (intro isDuplicate_evict) simp_all
  then have s2: "isDuplicate x1 (c @ [i]) = (False, drop 5000 c @ [i, x1])"
    using lc by simp
  have "isDuplicate_seq mid (drop 5000 c @ [i, x1])
      = (replicate (length mid) False, (drop 5000 c @ [i, x1]) @ mid)"
  proof (rule isDuplicate_seq_fresh)
    have "distinct (drop 5000 (c @ i # x1 # mid))"
      using d by (intro distinct_drop) simp
    then show "distinct ((drop 5000 c @ [i, x1]) @ mid)"
      using lc by simp
    show "length (drop 5000 c @ [i, x1]) + length mid \<le> 10000"
      using lc lm by simp
  qed
  then have s3: "snd (isDuplicate_seq mid (drop 5000 c @ [i, x1])) = drop 5000 c @ [i, x1] @ mid"
    by simp
  have "isDuplicate xl (drop 5000 c @ [i, x1] @ mid)
      = (False, drop (length ((drop 5000 c @ [i, x1] @ mid) @ [xl]) div 2)
                  ((drop 5000 c @ [i, x1] @ mid) @ [xl]))"
  proof (rule isDuplicate_evict)
    have "distinct (drop 5000 (c @ i # x1 # mid @ [xl]))"
      using d by (rule distinct_drop)
    then have dd: "distinct (drop 5000 c @ i # x1 # mid @ [xl])"
      using lc by simp
    from dd show "xl \<notin> set (drop 5000 c @ [i, x1] @ mid)" by simp
    from dd show "distinct (drop 5000 c @ [i, x1] @ mid)" by simp
    show "10000 \<le> length (drop 5000 c @ [i, x1] @ mid)"
      using lc lm by simp
  qed
  then have s4: "snd (isDuplicate xl (drop 5000 c @ [i, x1] @ mid)) = x1 # mid @ [xl]"
    using lc lm by simp
  have "snd (isDuplicate_seq (x1 # mid @ [xl]) (c @ [i]))
      = snd (isDuplicate_seq (mid @ [xl]) (drop 5000 c @ [i, x1]))"
    unfolding isDuplicate_seq_Cons s2 by simp
  also have "\<dots> = snd (isDuplicate xl (drop 5000 c @ [i, x1] @ mid))"
    unfolding isDuplicate_seq_snoc s3 ..
  finally show ?thesis
    unfolding s1 s4 by simp
qed

lemma cache_others_distinct: "distinct (cache_9999 @ 0 # others_5001)"
  unfolding cache_9999_def others_5001_def
  by (auto simp: distinct_map inj_on_def)

text \<open>
  Claim C5 as stated fails: from a cache of 9999 entries, the id is recorded as the
  10000th; the first other id evicts the oldest 5000 and leaves the id at position
  4999 of 5001, and the 5001st other id evicts it. After 5001 distinct other ids, fewer
  than 10000, the check of the id returns false again.
\<close>

theorem forgotten_after_5001_counterexample:
  "distinct cache_9999 \<and> length cache_9999 < 10000 \<and> 0 \<notin> set cache_9999
   \<and> distinct others_5001 \<and> 0 \<notin> set others_5001 \<and> set others_5001 \<inter> set cache_9999 = {}
   \<and> length others_5001 < 10000
   \<and> fst (isDuplicate 0 cache_9999) = False
   \<and> fst (isDuplicate 0 (snd (isDuplicate_seq others_5001 (snd (isDuplicate 0 cache_9999))))) = False"
proof -
  have l: "length cache_9999 = 9999" "length others_5001 = 5001"
    by (simp_all add: cache_9999_def others_5001_def)
  have d: "distinct cache_9999" "0 \<notin> set cache_9999" "distinct others_5001" "0 \<notin> set others_5001"
    "set others_5001 \<inter> set cache_9999 = {}"
    using cache_others_distinct by auto
  have first: "fst (isDuplicate 0 cache_9999) = False"
    using d(2) l(1) by (simp add: isDuplicate_miss)
  have "snd (isDuplicate_seq others_5001 (snd (isDuplicate 0 cache_9999))) = others_5001"
    unfolding others_5001_def
    by (rule evicted_after_5001)
      (use cache_others_distinct in \<open>simp_all add: others_5001_def cache_9999_def\<close>)
  then have "fst (isDuplicate 0 (snd (isDuplicate_seq others_5001 (snd (isDuplicate 0 cache_9999)))))
      = False"
    using d(4) l(2) by (simp add: isDuplicate_miss)
  then show ?thesis
    using l d first by simp
qed

text \<open>
  From an empty cache the bound of the claim is right: while fewer than 10000 distinct
  other ids are checked nothing is evicted.
\<close>

lemma fresh_step:
  assumes d: "distinct c" and s: "set c \<subseteq> T" and f: "finite T" and k: "card T \<le> 10000"
    and x: "x \<in> T"
  shows "distinct (snd (isDuplicate x c)) \<and> set (snd (isDuplicate x c)) = insert x (set c)"
proof (cases "x \<in> set c")
  case True
  then show ?thesis using d by (auto simp: isDuplicate_hit)
next
  case False
  have "length c = card (set c)"
    using d by (simp only: distinct_card)
  also have "\<dots> < card (insert x (set c))"
    using False by simp
  also have "\<dots> \<le> card T"
    using s x f by (intro card_mono) auto
  finally have "length c < 10000"
    using k by simp
  then show ?thesis
    using False d by (simp add: isDuplicate_miss)
qed

lemma fresh_seq:
  assumes "distinct c" and "set c \<subseteq> T" and "finite T" and "card T \<le> 10000"
    and "set xs \<subseteq> T" and "i \<in> set c"
  shows "list_all2 (\<lambda>x r. x = i \<longrightarrow> r) xs (fst (isDuplicate_seq xs c))"
  using assms
proof (induction xs arbitrary: c)
  case Nil
  then show ?case by simp
next
  case (Cons x xs)
  have x: "x \<in> T" and xs: "set xs \<subseteq> T"
    using Cons.prems(5) by simp_all
  have n: "distinct (snd (isDuplicate x c))" "set (snd (isDuplicate x c)) = insert x (set c)"
    using fresh_step [OF Cons.prems(1-4) x] by simp_all
  have "list_all2 (\<lambda>x r. x = i \<longrightarrow> r) xs (fst (isDuplicate_seq xs (snd (isDuplicate x c))))"
    using n Cons.prems(2,6) x by (intro Cons.IH [OF n(1) _ Cons.prems(3,4) xs]) auto
  moreover have "x = i \<longrightarrow> fst (isDuplicate x c)"
    using Cons.prems(6) by (simp add: isDuplicate_fst)
  ultimately show ?case
    by (auto simp add: isDuplicate_seq_Cons simp del: isDuplicate_seq.simps)
qed

lemma remembered_from_empty:
  assumes "card (set ys - {i}) < 10000"
  shows "fst (isDuplicate i []) = False
    \<and> list_all2 (\<lambda>y r. y = i \<longrightarrow> r) ys (fst (isDuplicate_seq ys (snd (isDuplicate i []))))"
proof -
  have c: "card (insert i (set ys)) \<le> 10000"
  proof -
    have "insert i (set ys) = insert i (set ys - {i})" by auto
    then have "card (insert i (set ys)) = Suc (card (set ys - {i}))"
      by (simp del: insert_Diff_single)
    then show ?thesis using assms by simp
  qed
  have "list_all2 (\<lambda>y r. y = i \<longrightarrow> r) ys (fst (isDuplicate_seq ys [i]))"
    by (rule fresh_seq [where T = "insert i (set ys)"]) (use c in auto)
  then show ?thesis
    by (simp add: isDuplicate_miss)
qed

section \<open>The router\<close>

lemma drop_fullMessage: "drop 4 (fullMessage a) = a"
  by (simp add: fullMessage_def writeUInt32BE_def)

lemma fullMessage_inject:
  assumes "fullMessage a = fullMessage b"
  shows "a = b"
proof -
  have "drop 4 (fullMessage a) = drop 4 (fullMessage b)"
    by (simp only: assms)
  then show ?thesis
    by (simp only: drop_fullMessage)
qed

lemma serialize_type_byte:
  assumes "serialize a = serialize b"
  shows "(word_of_int (msgType a) :: byte) = word_of_int (msgType b)"
  using arg_cong [OF assms, of "\<lambda>s. s ! 0"] unfolding serialize_nth .

lemma pong_not_ping:
  assumes "msgType a = PONG" and "msgType b = PING"
  shows "fullMessage (serialize a) \<noteq> fullMessage (serialize b)"
proof
  assume "fullMessage (serialize a) = fullMessage (serialize b)"
  then have "(word_of_int (msgType a) :: byte) = word_of_int (msgType b)"
    by (rule serialize_type_byte [OF fullMessage_inject])
  then show False
    unfolding assms PONG_def PING_def by simp
qed

lemma forwardMessage_effect:
  "connections (forwardMessage m x st) = connections st"
  "written (forwardMessage m x st) = written st @
     map (\<lambda>k. (k, fullMessage (serialize m)))
       (filter (\<lambda>k. Some k \<noteq> x) (map fst (connections st)))"
  by (simp_all add: forwardMessage_def filter_map comp_def case_prod_unfold)

lemma sendToPeer_effect:
  "connections (sendToPeer m k st) = connections st"
  "written (sendToPeer m k st) = written st @
     (if k \<in> fst ` set (connections st) then [(k, fullMessage (serialize m))] else [])"
  by (auto simp: sendToPeer_def map_of_eq_None_iff split: option.splits
      dest: map_of_SomeD intro: rev_image_eqI)

lemma handlePing_effect:
  "connections (handlePing e m k st) = connections st"
  "written (handlePing e m k st) = written st @
     (if k \<in> fst ` set (connections st)
      then [(k, fullMessage (serialize \<lparr>msgType = PONG, ttl = 1,
               msgId = generateMessageId (Date_now e) (Math_random e) [], payload = []\<rparr>))]
      else [])"
  by (simp_all add: handlePing_def Message_def sendToPeer_effect)

lemma other_handlers_effect:
  "connections (handlePong e m k st) = connections st"
  "written (handlePong e m k st) = written st"
  "connections (handlePeerDiscovery e m k st) = connections st"
  "written (handlePeerDiscovery e m k st) = written st"
  "connections (handlePeerAnnouncement e m k st) = connections st"
  "written (handlePeerAnnouncement e m k st) = written st"
  "connections (handleChatMessage e m k st) = connections st"
  "written (handleChatMessage e m k st) = written st"
  by (simp_all add: handlePong_def handlePeerDiscovery_def handlePeerAnnouncement_def
      handleChatMessage_def Let_def split: option.splits)

lemma handleMessage_writes:
  "new_writes st (handleMessage e m k st) =
     (if msgType m = PING \<and> k \<in> fst ` set (connections st)
      then [(k, fullMessage (serialize \<lparr>msgType = PONG, ttl = 1,
               msgId = generateMessageId (Date_now e) (Math_random e) [], payload = []\<rparr>))]
      else [])
     @ (if 0 < ttl m
        then map (\<lambda>p. (p, fullMessage (serialize (m\<lparr>ttl := ttl m - 1\<rparr>))))
               (filter (\<lambda>p. p \<noteq> k) (map fst (connections st)))
        else [])"
  by (simp add: new_writes_def handleMessage_def messageHandlers_def Let_def
      forwardMessage_effect handlePing_effect other_handlers_effect
      PING_def PONG_def PEER_DISCOVERY_def PEER_ANNOUNCEMENT_def CHAT_MESSAGE_def)

lemma handleMessage_connections:
  "connections (handleMessage e m k st) = connections st"
  by (simp add: handleMessage_def messageHandlers_def Let_def
      forwardMessage_effect handlePing_effect other_handlers_effect)

lemma onMessageData_fresh:
  assumes "deserialize data = Inr (Some m)" and "msgId m \<notin> set (protocol_messageCache st)"
  shows "onMessageData e data k st =
     handleMessage e m k
       (st\<lparr>protocol_messageCache := snd (isDuplicate (msgId m) (protocol_messageCache st))\<rparr>)"
proof -
  have "\<not> fst (isDuplicate (msgId m) (protocol_messageCache st))"
    using assms(2) by (simp add: isDuplicate_fst)
  then show ?thesis
    unfolding onMessageData_def assms(1) by (simp add: case_prod_beta)
qed

lemma onMessageData_writes:
  assumes "deserialize data = Inr (Some m)" and "msgId m \<notin> set (protocol_messageCache st)"
  shows "new_writes st (onMessageData e data k st) =
     (if msgType m = PING \<and> k \<in> fst ` set (connections st)
      then [(k, fullMessage (serialize \<lparr>msgType = PONG, ttl = 1,
               msgId = generateMessageId (Date_now e) (Math_random e) [], payload = []\<rparr>))]
      else [])
     @ (if 0 < ttl m
        then map (\<lambda>p. (p, fullMessage (serialize (m\<lparr>ttl := ttl m - 1\<rparr>))))
               (filter (\<lambda>p. p \<noteq> k) (map fst (connections st)))
        else [])"
proof -
  define st' where
    "st' = st\<lparr>protocol_messageCache := snd (isDuplicate (msgId m) (protocol_messageCache st))\<rparr>"
  have s: "written st' = written st" "connections st' = connections st"
    by (simp_all add: st'_def)
  have "new_writes st (onMessageData e data k st) = new_writes st' (handleMessage e m k st')"
    unfolding onMessageData_fresh [OF assms] st'_def [symmetric]
    by (simp add: new_writes_def s)
  then show ?thesis
    by (simp only: handleMessage_writes s)
qed

lemma count_forwarded:
  "distinct ks \<Longrightarrow>
     count_list (map (\<lambda>p. (p, F)) (filter (\<lambda>p. p \<noteq> k) ks)) (q, F)
       = (if q \<in> set ks \<and> q \<noteq> k then 1 else 0)"
  by (induction ks) auto

lemma deserialize_valid:
  assumes "deserialize data = Inr (Some m)"
  shows "0 \<le> ttl m \<and> ttl m \<le> 7 \<and> length (payload m) \<le> 65535"
proof (cases "length data < 8")
  case True
  then show ?thesis using assms by (simp add: deserialize_short)
next
  case False
  then have l: "8 \<le> length data" by simp
  show ?thesis
    using assms unfolding deserialize_long [OF l]
    by (auto simp: Message_def split: if_splits sum.splits)
qed

lemma byte_inject:
  assumes "(word_of_int a :: byte) = word_of_int b"
    and "0 \<le> a" and "a < 256" and "0 \<le> b" and "b < 256"
  shows "a = b"
proof -
  have "uint (word_of_int a :: byte) = uint (word_of_int b :: byte)"
    by (simp only: assms(1))
  then have "a mod 256 = b mod 256"
    by (simp only: uint_byte)
  then show ?thesis
    using small_mod [OF assms(2,3)] small_mod [OF assms(4,5)] by simp
qed

lemma serialize_ttl_byte:
  assumes "serialize a = serialize b"
  shows "(word_of_int (ttl a) :: byte) = word_of_int (ttl b)"
  using arg_cong [OF assms, of "\<lambda>s. s ! 1"] unfolding serialize_nth .

lemma frame_ttl_inject:
  assumes "fullMessage (serialize (m\<lparr>ttl := t\<rparr>)) = fullMessage (serialize (m\<lparr>ttl := u\<rparr>))"
    and "0 \<le> t" and "t < 256" and "0 \<le> u" and "u < 256"
  shows "t = u"
proof -
  have "(word_of_int (ttl (m\<lparr>ttl := t\<rparr>)) :: byte) = word_of_int (ttl (m\<lparr>ttl := u\<rparr>))"
    by (rule serialize_ttl_byte [OF fullMessage_inject [OF assms(1)]])
  then have "(word_of_int t :: byte) = word_of_int u"
    by simp
  then show ?thesis
    using assms(2-5) by (rule byte_inject)
qed

text \<open>
  Claim C3. A frame from the peer \<open>k\<close> decodes to a message whose id is not in the cache,
  so the router handles it. What it writes is given in full: the PONG reply to \<open>k\<close> when
  the message is a PING and \<open>k\<close> is connected, then, when the ttl is positive, one frame
  carrying the message with the ttl lowered by one for every key of the connections
  table other than \<open>k\<close>, and nothing else. Hence: with ttl 0 no frame carrying the message,
  with whatever ttl, is written to any peer; with a positive ttl the frame with the ttl
  lowered by one is written exactly once to every connected key other than \<open>k\<close> and to
  no other key, no frame carrying the message with another ttl byte is written to anyone,
  and no frame carrying the message goes back to \<open>k\<close>. The keys of the table are distinct,
  as the keys of a \<open>Map\<close> are.
\<close>

theorem router_ttl_forwarding:
  assumes "deserialize data = Inr (Some m)" and "msgId m \<notin> set (protocol_messageCache st)"
    and "distinct (map fst (connections st))"
  shows "new_writes st (onMessageData e data k st) =
           (if msgType m = PING \<and> k \<in> fst ` set (connections st)
            then [(k, fullMessage (serialize \<lparr>msgType = PONG, ttl = 1,
                     msgId = generateMessageId (Date_now e) (Math_random e) [],
                     payload = []\<rparr>))]
            else [])
           @ (if 0 < ttl m
              then map (\<lambda>p. (p, fullMessage (serialize (m\<lparr>ttl := ttl m - 1\<rparr>))))
                     (filter (\<lambda>p. p \<noteq> k) (map fst (connections st)))
              else [])
    \<and> (ttl m = 0 \<longrightarrow>
           (\<forall>p t. (p, fullMessage (serialize (m\<lparr>ttl := t\<rparr>)))
                    \<notin> set (new_writes st (onMessageData e data k st))))
    \<and> (0 < ttl m \<longrightarrow>
           (\<forall>p. count_list (new_writes st (onMessageData e data k st))
                   (p, fullMessage (serialize (m\<lparr>ttl := ttl m - 1\<rparr>)))
                 = (if p \<in> fst ` set (connections st) \<and> p \<noteq> k then 1 else 0))
         \<and> (\<forall>p t. 0 \<le> t \<and> t < 256 \<and> t \<noteq> ttl m - 1 \<longrightarrow>
                (p, fullMessage (serialize (m\<lparr>ttl := t\<rparr>)))
                  \<notin> set (new_writes st (onMessageData e data k st)))
         \<and> (\<forall>t. (k, fullMessage (serialize (m\<lparr>ttl := t\<rparr>)))
                  \<notin> set (new_writes st (onMessageData e data k st))))"
proof -
  let ?pong = "fullMessage (serialize \<lparr>msgType = PONG, ttl = 1,
               msgId = generateMessageId (Date_now e) (Math_random e) [], payload = []\<rparr>)"
  let ?F = "fullMessage (serialize (m\<lparr>ttl := ttl m - 1\<rparr>))"
  let ?reply = "if msgType m = PING \<and> k \<in> fst ` set (connections st) then [(k, ?pong)] else []"
  let ?fwd = "map (\<lambda>p. (p, ?F)) (filter (\<lambda>p. p \<noteq> k) (map fst (connections st)))"
  have w: "new_writes st (onMessageData e data k st) = ?reply @ (if 0 < ttl m then ?fwd else [])"
    by (rule onMessageData_writes [OF assms(1,2)])
  have range: "0 \<le> ttl m" "ttl m \<le> 7"
    using deserialize_valid [OF assms(1)] by simp_all
  have pong: "?pong \<noteq> fullMessage (serialize (m\<lparr>ttl := t\<rparr>))" if "msgType m = PING" for t
    by (rule pong_not_ping) (simp_all add: that)
  have reply: "(p, fullMessage (serialize (m\<lparr>ttl := t\<rparr>))) \<notin> set ?reply" for p t
    using pong [of t] by auto
  have cnt: "count_list ?fwd (p, ?F)
      = (if p \<in> fst ` set (connections st) \<and> p \<noteq> k then 1 else 0)" for p
    using count_forwarded [OF assms(3), of ?F k p] by simp
  have zero: "(p, fullMessage (serialize (m\<lparr>ttl := t\<rparr>)))
      \<notin> set (new_writes st (onMessageData e data k st))" if "ttl m = 0" for p t
    unfolding w using reply [of p t] that by simp
  have pos: "count_list (new_writes st (onMessageData e data k st)) (p, ?F)
      = (if p \<in> fst ` set (connections st) \<and> p \<noteq> k then 1 else 0)" if "0 < ttl m" for p
  proof -
    have "count_list ?reply (p, ?F) = 0"
      using reply [of p "ttl m - 1"] by (simp only: count_list_0_iff not_False_eq_True)
    then show ?thesis
      unfolding w if_P [OF that] count_list_append cnt by simp
  qed
  have other: "(p, fullMessage (serialize (m\<lparr>ttl := t\<rparr>)))
      \<notin> set (new_writes st (onMessageData e data k st))"
    if "0 < ttl m" and t: "0 \<le> t" "t < 256" "t \<noteq> ttl m - 1" for p t
  proof
    assume "(p, fullMessage (serialize (m\<lparr>ttl := t\<rparr>)))
      \<in> set (new_writes st (onMessageData e data k st))"
    then have "(p, fullMessage (serialize (m\<lparr>ttl := t\<rparr>))) \<in> set ?fwd"
      unfolding w using reply [of p t] by (auto split: if_splits)
    then have "fullMessage (serialize (m\<lparr>ttl := t\<rparr>)) = ?F"
      by auto
    then have "t = ttl m - 1"
      using t(1,2) range that(1) by (intro frame_ttl_inject [where m = m and t = t and u = "ttl m - 1"]) simp_all
    then show False using t(3) by simp
  qed
  have nosend: "(k, fullMessage (serialize (m\<lparr>ttl := t\<rparr>)))
      \<notin> set (new_writes st (onMessageData e data k st))" for t
    unfolding w using reply [of k t] by (auto split: if_splits)
  show ?thesis
    using w zero pos other nosend by blast
qed

text \<open>
  Claim C4, amended. For a PING that is not a duplicate the node writes a new PONG
  (type PONG, ttl 1, a fresh id, empty payload) to the sender, when the sender's key is
  in the connections table, and to nobody else. The PING itself goes the way of every
  message: with a positive ttl it is forwarded, ttl lowered by one, to every other
  connected peer; with ttl 0 it is not forwarded.
\<close>

theorem ping_reply_and_forward:
  assumes "deserialize data = Inr (Some m)" and "msgId m \<notin> set (protocol_messageCache st)"
    and "msgType m = PING"
  shows "new_writes st (onMessageData e data k st) =
     (if k \<in> fst ` set (connections st)
      then [(k, fullMessage (serialize \<lparr>msgType = PONG, ttl = 1,
               msgId = generateMessageId (Date_now e) (Math_random e) [], payload = []\<rparr>))]
      else [])
     @ (if 0 < ttl m
        then map (\<lambda>p. (p, fullMessage (serialize (m\<lparr>ttl := ttl m - 1\<rparr>))))
               (filter (\<lambda>p. p \<noteq> k) (map fst (connections st)))
        else [])"
  unfolding onMessageData_writes [OF assms(1,2)] using assms(3) by simp

lemma node2_tables:
  "connections node2 = [(''10.0.0.1:5000'', 1), (''10.0.0.2:6000'', 2)]"
  "written node2 = []"
  "protocol_messageCache node2 = []"
  by (simp_all add: node2_def P2PNetworkManager_def start_def handleIncomingConnection_def
      Let_def peerKey_def string_of_nat.simps digit_def)

lemma ping_data_decodes:
  "deserialize ping_data = Inr (Some \<lparr>msgType = 1, ttl = 1, msgId = 7, payload = []\<rparr>)"
  by (simp add: ping_data_def deserialize_long Message_def)

lemma chat_data_decodes:
  "deserialize chat_data = Inr (Some \<lparr>msgType = 5, ttl = 0, msgId = 9, payload = [104]\<rparr>)"
  by (simp add: chat_data_def deserialize_long Message_def)

theorem router_ttl_forwarding_witness:
  "distinct (map fst (connections node2))
   \<and> new_writes node2 (onMessageData env0 ping_data ''10.0.0.1:5000'' node2) =
       [(''10.0.0.1:5000'',
         fullMessage (serialize \<lparr>msgType = 2, ttl = 1,
            msgId = generateMessageId 1700000000000 4660 [], payload = []\<rparr>)),
        (''10.0.0.2:6000'',
         fullMessage (serialize \<lparr>msgType = 1, ttl = 0, msgId = 7, payload = []\<rparr>))]
   \<and> count_list (new_writes node2 (onMessageData env0 ping_data ''10.0.0.1:5000'' node2))
        (''10.0.0.2:6000'',
         fullMessage (serialize \<lparr>msgType = 1, ttl = 0, msgId = 7, payload = []\<rparr>)) = 1
   \<and> count_list (new_writes node2 (onMessageData env0 ping_data ''10.0.0.1:5000'' node2))
        (''10.0.0.1:5000'',
         fullMessage (serialize \<lparr>msgType = 1, ttl = 0, msgId = 7, payload = []\<rparr>)) = 0
   \<and> (''10.0.0.2:6000'',
         fullMessage (serialize \<lparr>msgType = 1, ttl = 1, msgId = 7, payload = []\<rparr>))
        \<notin> set (new_writes node2 (onMessageData env0 ping_data ''10.0.0.1:5000'' node2))
   \<and> (''10.0.0.1:5000'',
         fullMessage (serialize \<lparr>msgType = 1, ttl = 1, msgId = 7, payload = []\<rparr>))
        \<notin> set (new_writes node2 (onMessageData env0 ping_data ''10.0.0.1:5000'' node2))
   \<and> (''10.0.0.2:6000'',
         fullMessage (serialize \<lparr>msgType = 5, ttl = 0, msgId = 9, payload = [104]\<rparr>))
        \<notin> set (new_writes node2 (onMessageData env0 chat_data ''10.0.0.1:5000'' node2))"
proof -
  have d: "distinct (map fst (connections node2))"
    by (simp add: node2_tables)
  have c: "msgId \<lparr>msgType = 1, ttl = 1, msgId = 7, payload = []\<rparr>
             \<notin> set (protocol_messageCache node2)"
    "msgId \<lparr>msgType = 5, ttl = 0, msgId = 9, payload = [104]\<rparr>
       \<notin> set (protocol_messageCache node2)"
    by (simp_all add: node2_tables)
  note p = router_ttl_forwarding [OF ping_data_decodes c(1) d, of env0 "''10.0.0.1:5000''"]
  note q = router_ttl_forwarding [OF chat_data_decodes c(2) d, of env0 "''10.0.0.1:5000''"]
  have pos: "0 < ttl \<lparr>msgType = 1, ttl = 1, msgId = 7, payload = []\<rparr>"
    by simp
  note pc = p [THEN conjunct2, THEN conjunct2, THEN mp, OF pos]
  have p1: "new_writes node2 (onMessageData env0 ping_data ''10.0.0.1:5000'' node2) =
       [(''10.0.0.1:5000'',
         fullMessage (serialize \<lparr>msgType = 2, ttl = 1,
            msgId = generateMessageId 1700000000000 4660 [], payload = []\<rparr>)),
        (''10.0.0.2:6000'',
         fullMessage (serialize \<lparr>msgType = 1, ttl = 0, msgId = 7, payload = []\<rparr>))]"
    using p [THEN conjunct1] by (simp add: node2_tables PING_def PONG_def env0_def)
  have p2: "count_list (new_writes node2 (onMessageData env0 ping_data ''10.0.0.1:5000'' node2))
        (''10.0.0.2:6000'',
         fullMessage (serialize \<lparr>msgType = 1, ttl = 0, msgId = 7, payload = []\<rparr>)) = 1"
    using pc [THEN conjunct1, THEN spec, of "''10.0.0.2:6000''"]
    by (simp add: node2_tables)
  have p3: "count_list (new_writes node2 (onMessageData env0 ping_data ''10.0.0.1:5000'' node2))
        (''10.0.0.1:5000'',
         fullMessage (serialize \<lparr>msgType = 1, ttl = 0, msgId = 7, payload = []\<rparr>)) = 0"
    using pc [THEN conjunct1, THEN spec, of "''10.0.0.1:5000''"]
    by (simp add: node2_tables)
  have p4: "(pk, fullMessage (serialize \<lparr>msgType = 1, ttl = 1, msgId = 7, payload = []\<rparr>))
        \<notin> set (new_writes node2 (onMessageData env0 ping_data ''10.0.0.1:5000'' node2))" for pk
    using pc [THEN conjunct2, THEN conjunct1, THEN spec, THEN spec, of 1 pk]
    by simp
  have zero: "ttl \<lparr>msgType = 5, ttl = 0, msgId = 9, payload = [104]\<rparr> = 0"
    by simp
  have q1: "(''10.0.0.2:6000'',
         fullMessage (serialize \<lparr>msgType = 5, ttl = 0, msgId = 9, payload = [104]\<rparr>))
        \<notin> set (new_writes node2 (onMessageData env0 chat_data ''10.0.0.1:5000'' node2))"
    using q [THEN conjunct2, THEN conjunct1, THEN mp, OF zero, THEN spec, THEN spec,
        of "''10.0.0.2:6000''" 0]
    by simp
  show ?thesis
    using d p1 p2 p3 p4 q1 by blast
qed

theorem ping_reply_and_forward_witness:
  "new_writes node2 (onMessageData env0 ping_data ''10.0.0.1:5000'' node2) =
     [(''10.0.0.1:5000'',
       fullMessage (serialize \<lparr>msgType = 2, ttl = 1,
          msgId = generateMessageId 1700000000000 4660 [], payload = []\<rparr>)),
      (''10.0.0.2:6000'',
       fullMessage (serialize \<lparr>msgType = 1, ttl = 0, msgId = 7, payload = []\<rparr>))]"
  using ping_reply_and_forward [OF ping_data_decodes, of node2 env0 "''10.0.0.1:5000''"]
  by (simp add: node2_tables PING_def PONG_def env0_def)

text \<open>
  Claim C4 as stated fails: \<open>handleMessage\<close> forwards after the handler whatever the
  type. The node with two peers receives a PING with ttl 1 from the first; the frame
  carrying the PING with ttl 0 is written to the second.
\<close>

theorem ping_is_forwarded_counterexample:
  "deserialize ping_data = Inr (Some \<lparr>msgType = PING, ttl = 1, msgId = 7, payload = []\<rparr>)
   \<and> 7 \<notin> set (protocol_messageCache node2)
   \<and> ''10.0.0.2:6000'' \<in> fst ` set (connections node2)
   \<and> ''10.0.0.2:6000'' \<noteq> ''10.0.0.1:5000''
   \<and> (''10.0.0.2:6000'',
        fullMessage (serialize \<lparr>msgType = PING, ttl = 0, msgId = 7, payload = []\<rparr>))
       \<in> set (new_writes node2 (onMessageData env0 ping_data ''10.0.0.1:5000'' node2))"
  using onMessageData_writes [OF ping_data_decodes, of node2 env0 "''10.0.0.1:5000''"]
  by (simp add: node2_tables PING_def ping_data_decodes)

lemma node2_peers:
  "map fst (peers node2) = [''10.0.0.1:5000'', ''10.0.0.2:6000'']"
  by (simp add: node2_def P2PNetworkManager_def start_def handleIncomingConnection_def
      Let_def peerKey_def string_of_nat.simps digit_def)

text \<open>
  Claim C7. The connections table and the peer registry are claimed to have the same
  keys in every reachable state, \<open>stop\<close> included. \<open>stop\<close> clears the connections and
  leaves the registry as it is: after it the node with two peers has no connection and
  two registry entries.
\<close>

theorem stop_keeps_peer_registry:
  "fst ` set (connections node2) = fst ` set (peers node2)
   \<and> connections (exec node2 Stop) = []
   \<and> map fst (peers (exec node2 Stop)) = [''10.0.0.1:5000'', ''10.0.0.2:6000'']
   \<and> fst ` set (connections (exec node2 Stop)) \<noteq> fst ` set (peers (exec node2 Stop))"
proof -
  have p: "fst ` set (peers node2) = {''10.0.0.1:5000'', ''10.0.0.2:6000''}"
    using node2_peers by (metis list.set_map list.simps(15) empty_set)
  show ?thesis
    by (simp add: stop_def node2_tables node2_peers p)
qed

lemma keys_update: "fst ` set (AList.update k v al) = insert k (fst ` set al)"
  by (simp add: dom_update)

lemma keys_delete: "fst ` set (AList.delete k al) = fst ` set al - {k}"
  using delete_keys [of k al] by (metis list.set_map set_removeAll)

lemma keys_update_present:
  "map_of al k = Some v \<Longrightarrow> fst ` set (AList.update k w al) = fst ` set al"
  by (auto simp: keys_update dest: map_of_SomeD intro: rev_image_eqI)

lemma handlers_peers:
  "fst ` set (peers (handlePing e m k st)) = fst ` set (peers st)"
  "fst ` set (peers (handlePong e m k st)) = fst ` set (peers st)"
  "fst ` set (peers (handlePeerDiscovery e m k st)) = fst ` set (peers st)"
  "fst ` set (peers (handlePeerAnnouncement e m k st)) = fst ` set (peers st)"
  "fst ` set (peers (handleChatMessage e m k st)) = fst ` set (peers st)"
  by (simp_all add: handlePing_def handlePong_def handlePeerDiscovery_def
      handlePeerAnnouncement_def handleChatMessage_def sendToPeer_def Message_def Let_def
      keys_update_present split: option.splits)

lemma handleMessage_peers:
  "fst ` set (peers (handleMessage e m k st)) = fst ` set (peers st)"
  by (simp add: handleMessage_def messageHandlers_def Let_def forwardMessage_def handlers_peers)

lemma onMessageData_tables:
  "connections (onMessageData e d k st) = connections st"
  "fst ` set (peers (onMessageData e d k st)) = fst ` set (peers st)"
  by (simp_all add: onMessageData_def handleMessage_connections handleMessage_peers
      split: sum.splits option.splits prod.splits)

lemma handlePeerDisconnect_tables:
  "connections (handlePeerDisconnect k st) = AList.delete k (connections st)"
  "peers (handlePeerDisconnect k st) = AList.delete k (peers st)"
  by (simp_all add: handlePeerDisconnect_def Let_def)

lemma onConnect_tables:
  "connections (snd (onConnect e s a p st)) = AList.update (peerKey a p) s (connections st)"
  "fst ` set (peers (snd (onConnect e s a p st)))
     = insert (peerKey a p) (fst ` set (peers st))"
  by (simp_all add: onConnect_def sendPeerAnnouncement_def Let_def keys_update
      split: sum.splits)

lemma disconnect_all_keys:
  "fst ` set (connections st) = fst ` set (peers st) \<Longrightarrow>
     fst ` set (connections (foldl (\<lambda>s k. handlePeerDisconnect k s) st ks))
       = fst ` set (peers (foldl (\<lambda>s k. handlePeerDisconnect k s) st ks))"
  by (induction ks arbitrary: st) (simp_all add: handlePeerDisconnect_tables keys_delete)

lemma disconnect_all_distinct:
  "distinct (map fst (connections st)) \<Longrightarrow>
     distinct (map fst (connections (foldl (\<lambda>s k. handlePeerDisconnect k s) st ks)))"
  by (induction ks arbitrary: st) (simp_all add: handlePeerDisconnect_tables distinct_delete)

text \<open>
  Every other event keeps the two key sets equal, so they are equal in every state
  reached without \<open>stop\<close>; and the keys of the connections table stay distinct.
\<close>

lemma exec_keeps_tables:
  assumes "a \<noteq> Stop" and "fst ` set (connections st) = fst ` set (peers st)"
  shows "fst ` set (connections (exec st a)) = fst ` set (peers (exec st a))"
proof (cases a)
  case Start
  then show ?thesis using assms(2) by (simp add: start_def)
next
  case Stop
  then show ?thesis using assms(1) by simp
next
  case (IncomingConnection e s ad p)
  then show ?thesis
    using assms(2) by (simp add: handleIncomingConnection_def Let_def keys_update)
next
  case (ConnectEvent e s ad p)
  then show ?thesis
    using assms(2) by (simp add: onConnect_tables keys_update)
next
  case ConnectError
  then show ?thesis
    using assms(2) by (simp add: onConnectError_def)
next
  case (SocketClosed k)
  then show ?thesis
    using assms(2) by (simp add: handlePeerDisconnect_tables keys_delete)
next
  case (MessageData e d k)
  then show ?thesis
    using assms(2) by (simp add: onMessageData_tables)
next
  case (CleanupTimer e)
  then show ?thesis
    using disconnect_all_keys [OF assms(2)] assms(2) by (simp add: cleanup_def Let_def)
qed

lemma exec_distinct_keys:
  assumes "distinct (map fst (connections st))"
  shows "distinct (map fst (connections (exec st a)))"
proof (cases a)
  case (CleanupTimer e)
  then show ?thesis
    using disconnect_all_distinct [OF assms] assms by (simp add: cleanup_def Let_def)
qed (use assms in \<open>simp_all add: start_def stop_def handleIncomingConnection_def Let_def
      onConnectError_def onConnect_tables handlePeerDisconnect_tables onMessageData_tables
      distinct_update distinct_delete split: option.splits\<close>)

lemma reachable_distinct_keys:
  "distinct (map fst (connections (foldl exec (P2PNetworkManager p n) as)))"
proof (induction as rule: rev_induct)
  case Nil
  then show ?case by (simp add: P2PNetworkManager_def)
next
  case (snoc a as)
  then show ?case by (simp add: exec_distinct_keys)
qed

lemma reachable_without_stop:
  "Stop \<notin> set as \<Longrightarrow>
     fst ` set (connections (foldl exec (P2PNetworkManager p n) as))
       = fst ` set (peers (foldl exec (P2PNetworkManager p n) as))"
proof (induction as rule: rev_induct)
  case Nil
  then show ?case by (simp add: P2PNetworkManager_def)
next
  case (snoc a as)
  then show ?case by (auto intro!: exec_keeps_tables simp del: exec.simps)
qed

end
